theory Spec2Isabelle
  imports Main "HOL-Library.Multiset"
begin

section \<open>Data model of \<open>src/app/page.tsx\<close>\<close>

text \<open>
  \<open>WordPressPost\<close>: the record fetched from the feed. The layout logic reads only \<open>id\<close>
  (through \<open>getPostId\<close>); the other fields travel with the post. \<open>id\<close> is a JavaScript
  number holding an integer; it is an \<open>int\<close> here. The optional \<open>_embedded\<close> media list is
  an option of a list of (\<open>source_url\<close>, \<open>alt_text\<close>) pairs, each optional.
\<close>

record WordPressPost =
  id_post :: int
  link :: string
  title_rendered :: string
  excerpt_rendered :: string
  date :: string
  featuredmedia :: "(string option \<times> string option) list option"

text \<open>\<open>PostColumn\<close>: a column identity, its heading and its ordered posts.\<close>

record PostColumn =
  id_column :: string
  label :: string
  posts :: "WordPressPost list"

text \<open>The only failure the layout code can raise: reading a property of \<open>undefined\<close>.\<close>

datatype error = TypeError

definition COLUMN_COUNT :: nat where
  "COLUMN_COUNT = 4"

subsection \<open>Number to string\<close>

text \<open>
  \<open>Number.prototype.toString\<close> on an integer: decimal digits, most significant first, with
  a leading minus sign for a negative number. (JavaScript switches to exponent notation
  from \<open>10^21\<close> on; post identifiers are far below that, and no theorem here depends on the
  digits of an identifier beyond the concrete layouts.)
\<close>

definition digit_char :: "nat \<Rightarrow> char" where
  "digit_char d = ''0123456789'' ! (d mod 10)"

fun toString_nat :: "nat \<Rightarrow> string" where
  "toString_nat n =
     (if n < 10 then [digit_char n] else toString_nat (n div 10) @ [digit_char (n mod 10)])"

declare toString_nat.simps [simp del]

definition toString :: "int \<Rightarrow> string" where
  "toString i = (if i < 0 then CHR ''-'' # toString_nat (nat (- i)) else toString_nat (nat i))"

text \<open>\<open>const getPostId = (post) => post.id.toString()\<close>\<close>

definition getPostId :: "WordPressPost \<Rightarrow> string" where
  "getPostId post = toString (id_post post)"

text \<open>
  \<open>createEmptyColumns\<close>: \<open>COLUMN_COUNT\<close> columns, the one at \<open>index\<close> with identity
  \<open>column-index\<close>, heading \<open>Column (index + 1)\<close> and no posts.
\<close>

definition createEmptyColumns :: "PostColumn list" where
  "createEmptyColumns =
     map (\<lambda>index. \<lparr>id_column = ''column-'' @ toString_nat index,
                    label = ''Column '' @ toString_nat (index + 1),
                    posts = []\<rparr>)
         [0..<COLUMN_COUNT]"

subsection \<open>Array helpers\<close>

text \<open>\<open>Array.prototype.findIndex\<close>: the first index whose element satisfies the predicate;
  JavaScript's \<open>-1\<close> is \<open>None\<close>.\<close>

fun findIndex :: "('a \<Rightarrow> bool) \<Rightarrow> 'a list \<Rightarrow> nat option" where
  "findIndex P [] = None"
| "findIndex P (x # xs) = (if P x then Some 0 else map_option Suc (findIndex P xs))"

text \<open>\<open>xs.splice(i, 1)\<close> leaves \<open>xs\<close> without its element at \<open>i\<close>.\<close>

definition splice_remove :: "nat \<Rightarrow> 'a list \<Rightarrow> 'a list" where
  "splice_remove i xs = take i xs @ drop (Suc i) xs"

text \<open>\<open>xs.splice(i, 0, x)\<close> leaves \<open>xs\<close> with \<open>x\<close> inserted in front of position \<open>i\<close>
  (at the end when \<open>i\<close> is the length).\<close>

definition splice_insert :: "nat \<Rightarrow> 'a \<Rightarrow> 'a list \<Rightarrow> 'a list" where
  "splice_insert i x xs = take i xs @ x # drop i xs"

text \<open>The identifiers of a column's posts, and of a whole layout in column order
  (\<open>columns.flatMap(column => column.posts.map(getPostId))\<close>).\<close>

definition columnIds :: "PostColumn \<Rightarrow> string list" where
  "columnIds column = map getPostId (posts column)"

definition layoutIds :: "PostColumn list \<Rightarrow> string list" where
  "layoutIds columns = concat (map columnIds columns)"

definition layoutPosts :: "PostColumn list \<Rightarrow> WordPressPost list" where
  "layoutPosts columns = concat (map posts columns)"

section \<open>Reconciliation (the \<open>useEffect\<close> on \<open>data\<close>)\<close>

text \<open>Stale removal: every column keeps, in order, the posts whose identifier is incoming.\<close>

definition filtered :: "WordPressPost list \<Rightarrow> PostColumn list \<Rightarrow> PostColumn list" where
  "filtered data prevColumns =
     (let incomingIds = set (map getPostId data)
      in map (\<lambda>column. column\<lparr>posts := filter (\<lambda>post. getPostId post \<in> incomingIds) (posts column)\<rparr>)
             prevColumns)"

text \<open>The incoming posts whose identifier no column of the filtered layout holds. The set of
  existing identifiers is computed once, before any post is placed.\<close>

definition newPosts :: "WordPressPost list \<Rightarrow> PostColumn list \<Rightarrow> WordPressPost list" where
  "newPosts data prevColumns =
     (let existingIds = set (layoutIds (filtered data prevColumns))
      in filter (\<lambda>post. getPostId post \<notin> existingIds) data)"

text \<open>
  \<open>nextColumns.reduce((minIndex, column, idx) => column.posts.length <
  nextColumns[minIndex].posts.length ? idx : minIndex, 0)\<close>. The callback runs once per index
  in increasing order; \<open>minIndex\<close> is \<open>0\<close> or an earlier index, so its read is in range
  whenever the callback runs. On an empty array the result is the initial \<open>0\<close>.
\<close>

definition targetIndex :: "PostColumn list \<Rightarrow> nat" where
  "targetIndex nextColumns =
     foldl (\<lambda>minIndex idx.
              if length (posts (nextColumns ! idx)) < length (posts (nextColumns ! minIndex))
              then idx else minIndex)
           0 [0..<length nextColumns]"

text \<open>\<open>nextColumns[targetIndex].posts.push(post)\<close>; with no column at all,
  \<open>nextColumns[0]\<close> is \<open>undefined\<close> and reading \<open>.posts\<close> throws.\<close>

definition placePost :: "PostColumn list \<Rightarrow> WordPressPost \<Rightarrow> error + PostColumn list" where
  "placePost nextColumns post =
     (let t = targetIndex nextColumns
      in if t < length nextColumns
         then Inr (nextColumns[t := (nextColumns ! t)\<lparr>posts := posts (nextColumns ! t) @ [post]\<rparr>])
         else Inl TypeError)"

text \<open>\<open>newPosts.forEach(...)\<close>: the posts are placed one after the other, each on the
  columns as the previous placement left them.\<close>

fun placeAll :: "PostColumn list \<Rightarrow> WordPressPost list \<Rightarrow> error + PostColumn list" where
  "placeAll nextColumns [] = Inr nextColumns"
| "placeAll nextColumns (post # rest) =
     (case placePost nextColumns post of
        Inl e \<Rightarrow> Inl e
      | Inr nextColumns' \<Rightarrow> placeAll nextColumns' rest)"

text \<open>The state updater passed to \<open>setColumns\<close> in the effect.\<close>

definition reconcile :: "WordPressPost list \<Rightarrow> PostColumn list \<Rightarrow> error + PostColumn list" where
  "reconcile data prevColumns =
     (if newPosts data prevColumns = [] then Inr (filtered data prevColumns)
      else placeAll (filtered data prevColumns) (newPosts data prevColumns))"


section \<open>Move application (\<open>handleDragEnd\<close>)\<close>

definition sourceColumnIndex :: "PostColumn list \<Rightarrow> string \<Rightarrow> nat option" where
  "sourceColumnIndex prevColumns activeId =
     findIndex (\<lambda>column. list_ex (\<lambda>post. getPostId post = activeId) (posts column)) prevColumns"

definition targetColumnIndex :: "PostColumn list \<Rightarrow> string \<Rightarrow> nat option" where
  "targetColumnIndex prevColumns overId =
     findIndex (\<lambda>column. id_column column = overId
                          \<or> list_ex (\<lambda>post. getPostId post = overId) (posts column))
               prevColumns"

text \<open>\<open>targetPostIndex >= 0 ? targetPostIndex : targetPosts.length\<close>\<close>

definition insertIndex :: "string \<Rightarrow> WordPressPost list \<Rightarrow> nat" where
  "insertIndex overId targetPosts =
     (case findIndex (\<lambda>post. getPostId post = overId) targetPosts of
        Some targetPostIndex \<Rightarrow> targetPostIndex
      | None \<Rightarrow> length targetPosts)"

text \<open>
  The state updater passed to \<open>setColumns\<close> in \<open>handleDragEnd\<close>. \<open>updatedColumns\<close> copies
  every column and its post array, so \<open>sourcePosts\<close> and \<open>targetPosts\<close> are the same array
  exactly when source and target column coincide: the target posts are read from the columns
  after the removal. A post is an object, so \<open>if (!movingPost)\<close> never fires.
\<close>

definition applyMove :: "PostColumn list \<Rightarrow> string \<Rightarrow> string \<Rightarrow> PostColumn list" where
  "applyMove prevColumns activeId overId =
     (case sourceColumnIndex prevColumns activeId of
        None \<Rightarrow> prevColumns
      | Some s \<Rightarrow>
         (case targetColumnIndex prevColumns overId of
            None \<Rightarrow> prevColumns
          | Some t \<Rightarrow>
             if s = t \<and> overId = activeId then prevColumns
             else
               (case findIndex (\<lambda>post. getPostId post = activeId) (posts (prevColumns ! s)) of
                  None \<Rightarrow> prevColumns
                | Some movingIndex \<Rightarrow>
                   (let movingPost = posts (prevColumns ! s) ! movingIndex;
                        removed = prevColumns[s := (prevColumns ! s)
                                    \<lparr>posts := splice_remove movingIndex (posts (prevColumns ! s))\<rparr>];
                        targetPosts = posts (removed ! t)
                    in if s = t
                       then removed[t := (removed ! t)
                              \<lparr>posts := splice_insert (insertIndex overId targetPosts) movingPost targetPosts\<rparr>]
                       else if id_column (removed ! t) = overId
                       then removed[t := (removed ! t)\<lparr>posts := targetPosts @ [movingPost]\<rparr>]
                       else removed[t := (removed ! t)
                              \<lparr>posts := splice_insert (insertIndex overId targetPosts) movingPost targetPosts\<rparr>]))))"

text \<open>\<open>handleDragEnd\<close>: a drag released over nothing (\<open>if (!over) return\<close>) changes nothing.\<close>

definition handleDragEnd :: "string \<Rightarrow> string option \<Rightarrow> PostColumn list \<Rightarrow> PostColumn list" where
  "handleDragEnd activeId over prevColumns =
     (case over of None \<Rightarrow> prevColumns | Some overId \<Rightarrow> applyMove prevColumns activeId overId)"

text \<open>A post with a given identifier and fixed other fields, for concrete layouts.\<close>

definition samplePost :: "int \<Rightarrow> WordPressPost" where
  "samplePost n = \<lparr>id_post = n, link = ''https://wordpress.org/news/'', title_rendered = ''t'',
                   excerpt_rendered = ''e'', date = ''2025-01-01'', featuredmedia = None\<rparr>"

definition withPosts :: "int list list \<Rightarrow> PostColumn list" where
  "withPosts idss =
     map (\<lambda>(column, ids). column\<lparr>posts := map samplePost ids\<rparr>) (zip createEmptyColumns idss)"

lemma findIndex_None_iff: "findIndex P xs = None \<longleftrightarrow> (\<forall>x\<in>set xs. \<not> P x)"
  by (induction xs) auto

lemma findIndex_Some:
  "findIndex P xs = Some i \<Longrightarrow> i < length xs \<and> P (xs ! i) \<and> (\<forall>j<i. \<not> P (xs ! j))"
proof (induction xs arbitrary: i)
  case Nil
  then show ?case by simp
next
  case (Cons x xs)
  show ?case
  proof (cases "P x")
    case True
    with Cons.prems show ?thesis by simp
  next
    case False
    with Cons.prems obtain k where k: "findIndex P xs = Some k" "i = Suc k"
      by auto
    from Cons.IH [OF k(1)] False k(2) show ?thesis
      by (auto simp: nth_Cons split: nat.splits)
  qed
qed

lemma findIndex_Some_ex: "\<exists>x\<in>set xs. P x \<Longrightarrow> \<exists>i. findIndex P xs = Some i"
  using findIndex_None_iff [of P xs] by (cases "findIndex P xs") auto

lemma argmin_foldl:
  fixes g :: "nat \<Rightarrow> nat"
  defines "f \<equiv> (\<lambda>m i. if g i < g m then i else m)"
  shows "(0 < n \<longrightarrow> foldl f 0 [0..<n] < n)
         \<and> (\<forall>j<n. g (foldl f 0 [0..<n]) \<le> g j)
         \<and> (\<forall>j<foldl f 0 [0..<n]. g (foldl f 0 [0..<n]) < g j)
         \<and> (n = 0 \<longrightarrow> foldl f 0 [0..<n] = 0)"
proof (induction n)
  case 0
  then show ?case by simp
next
  case (Suc n)
  let ?m = "foldl f 0 [0..<n]"
  have step: "foldl f 0 [0..<Suc n] = (if g n < g ?m then n else ?m)"
    by (simp add: f_def)
  show ?case
  proof (cases "g n < g ?m")
    case True
    then have eq: "foldl f 0 [0..<Suc n] = n" using step by simp
    have "\<forall>j<n. g n < g j"
      using Suc.IH True by (meson le_less_trans not_le order.strict_trans2)
    then show ?thesis unfolding eq
      by (auto simp: less_Suc_eq intro: less_imp_le)
  next
    case False
    then have eq: "foldl f 0 [0..<Suc n] = ?m" using step by simp
    show ?thesis unfolding eq using Suc.IH False
      by (cases "n = 0") (auto simp: less_Suc_eq)
  qed
qed

lemma targetIndex_props:
  assumes "cols \<noteq> []"
  shows "targetIndex cols < length cols"
    and "\<forall>j<length cols. length (posts (cols ! targetIndex cols)) \<le> length (posts (cols ! j))"
    and "\<forall>j<targetIndex cols. length (posts (cols ! targetIndex cols)) < length (posts (cols ! j))"
  using argmin_foldl [of "length cols" "\<lambda>i. length (posts (cols ! i))"] assms
  by (simp_all add: targetIndex_def)

lemma layoutIds_layoutPosts: "layoutIds cols = map getPostId (layoutPosts cols)"
  by (induction cols) (simp_all add: layoutIds_def layoutPosts_def columnIds_def)

lemma layoutPosts_update:
  "t < length cols \<Longrightarrow>
   mset (layoutPosts (cols[t := (cols ! t)\<lparr>posts := ps\<rparr>])) + mset (posts (cols ! t))
   = mset (layoutPosts cols) + mset ps"
proof (induction cols arbitrary: t)
  case Nil
  then show ?case by simp
next
  case (Cons c cols)
  show ?case
  proof (cases t)
    case 0
    then show ?thesis by (simp add: layoutPosts_def)
  next
    case (Suc k)
    with Cons.prems have "k < length cols" by simp
    from Cons.IH [OF this] Suc show ?thesis
      by (simp add: layoutPosts_def add.assoc add.left_commute)
  qed
qed

lemma placePost_Inr:
  assumes "cols \<noteq> []"
  shows "placePost cols p =
           Inr (cols[targetIndex cols :=
                  (cols ! targetIndex cols)\<lparr>posts := posts (cols ! targetIndex cols) @ [p]\<rparr>])"
  using targetIndex_props(1) [OF assms] by (simp add: placePost_def Let_def)

lemma placePost_cases:
  assumes "placePost cols p = Inr r"
  shows "targetIndex cols < length cols"
    and "r = cols[targetIndex cols :=
                  (cols ! targetIndex cols)\<lparr>posts := posts (cols ! targetIndex cols) @ [p]\<rparr>]"
  using assms by (auto simp: placePost_def Let_def split: if_splits)

lemma placePost_mset:
  assumes "placePost cols p = Inr r"
  shows "mset (layoutPosts r) = add_mset p (mset (layoutPosts cols))"
proof -
  note c = placePost_cases [OF assms]
  from layoutPosts_update [OF c(1), of "posts (cols ! targetIndex cols) @ [p]"] c(2)
  show ?thesis by simp
qed

lemma placePost_shape:
  assumes "placePost cols p = Inr r"
  shows "length r = length cols" and "map id_column r = map id_column cols"
    and "map label r = map label cols"
proof -
  note c = placePost_cases [OF assms]
  show "length r = length cols" using c(2) by simp
  show "map id_column r = map id_column cols"
    using c by (simp add: map_update list_update_same_conv)
  show "map label r = map label cols"
    using c by (simp add: map_update list_update_same_conv)
qed

lemma placePost_posts:
  assumes "placePost cols p = Inr r" and "i < length cols"
  shows "posts (r ! i) = posts (cols ! i) @ (if i = targetIndex cols then [p] else [])"
  using placePost_cases [OF assms(1)] assms(2) by (simp add: nth_list_update)

subsection \<open>Placing a list of posts\<close>

lemma placeAll_total: "cols \<noteq> [] \<Longrightarrow> \<exists>r. placeAll cols ps = Inr r"
proof (induction ps arbitrary: cols)
  case Nil
  then show ?case by simp
next
  case (Cons p ps)
  let ?c = "cols[targetIndex cols :=
               (cols ! targetIndex cols)\<lparr>posts := posts (cols ! targetIndex cols) @ [p]\<rparr>]"
  have "?c \<noteq> []" using Cons.prems by simp
  from Cons.IH [OF this] show ?case
    by (simp add: placePost_Inr [OF Cons.prems])
qed

lemma placeAll_shape:
  "placeAll cols ps = Inr r \<Longrightarrow>
   length r = length cols \<and> map id_column r = map id_column cols \<and> map label r = map label cols"
proof (induction ps arbitrary: cols)
  case Nil
  then show ?case by simp
next
  case (Cons p ps)
  from Cons.prems obtain c where c: "placePost cols p = Inr c" "placeAll c ps = Inr r"
    by (auto split: sum.splits)
  from Cons.IH [OF c(2)] placePost_shape [OF c(1)] show ?case by simp
qed

lemma placeAll_mset:
  "placeAll cols ps = Inr r \<Longrightarrow> mset (layoutPosts r) = mset (layoutPosts cols) + mset ps"
proof (induction ps arbitrary: cols)
  case Nil
  then show ?case by simp
next
  case (Cons p ps)
  from Cons.prems obtain c where c: "placePost cols p = Inr c" "placeAll c ps = Inr r"
    by (auto split: sum.splits)
  from Cons.IH [OF c(2)] placePost_mset [OF c(1)] show ?case by simp
qed

lemma placeAll_posts:
  "placeAll cols ps = Inr r \<Longrightarrow> i < length cols \<Longrightarrow>
   \<exists>added. posts (r ! i) = posts (cols ! i) @ added \<and> set added \<subseteq> set ps"
proof (induction ps arbitrary: cols)
  case Nil
  then show ?case by simp
next
  case (Cons p ps)
  from Cons.prems(1) obtain c where c: "placePost cols p = Inr c" "placeAll c ps = Inr r"
    by (auto split: sum.splits)
  have "i < length c" using placePost_shape(1) [OF c(1)] Cons.prems(2) by simp
  from Cons.IH [OF c(2) this] obtain added
    where a: "posts (r ! i) = posts (c ! i) @ added" "set added \<subseteq> set ps" by blast
  let ?first = "if i = targetIndex cols then [p] else []"
  have "posts (r ! i) = posts (cols ! i) @ (?first @ added)"
    using a(1) placePost_posts [OF c(1) Cons.prems(2)] by simp
  moreover have "set (?first @ added) \<subseteq> set (p # ps)" using a(2) by auto
  ultimately show ?case by blast
qed

subsection \<open>Stale removal and the new posts\<close>

lemma filtered_shape:
  "length (filtered data cols) = length cols"
  "map id_column (filtered data cols) = map id_column cols"
  "map label (filtered data cols) = map label cols"
  by (simp_all add: filtered_def)

lemma filtered_posts:
  "i < length cols \<Longrightarrow>
   posts (filtered data cols ! i)
     = filter (\<lambda>post. getPostId post \<in> set (map getPostId data)) (posts (cols ! i))"
  by (simp add: filtered_def)

lemma filtered_layoutPosts:
  "layoutPosts (filtered data cols)
     = filter (\<lambda>post. getPostId post \<in> set (map getPostId data)) (layoutPosts cols)"
  by (induction cols) (simp_all add: filtered_def layoutPosts_def)

lemma filtered_layoutIds:
  "layoutIds (filtered data cols) = filter (\<lambda>x. x \<in> set (map getPostId data)) (layoutIds cols)"
  by (simp add: layoutIds_layoutPosts filtered_layoutPosts filter_map comp_def)

lemma newPosts_alt:
  "newPosts data cols = filter (\<lambda>post. getPostId post \<notin> set (layoutIds cols)) data"
  by (auto simp: newPosts_def filtered_layoutIds intro: filter_cong)

lemma filtered_all_placed:
  assumes "set (layoutIds cols) \<subseteq> set (map getPostId data)"
  shows "filtered data cols = cols"
proof -
  have "\<And>c. c \<in> set cols \<Longrightarrow>
          filter (\<lambda>post. getPostId post \<in> set (map getPostId data)) (posts c) = posts c"
    using assms by (auto simp: layoutIds_def columnIds_def filter_id_conv)
  then show ?thesis by (simp add: filtered_def map_idI)
qed

subsection \<open>Reconciliation\<close>

lemma reconcile_total:
  assumes "cols \<noteq> []"
  shows "\<exists>r. reconcile data cols = Inr r"
proof -
  have "filtered data cols \<noteq> []" using assms by (simp add: filtered_def)
  from placeAll_total [OF this] show ?thesis by (simp add: reconcile_def)
qed

lemma reconcile_placeAll:
  "reconcile data cols = placeAll (filtered data cols) (newPosts data cols)"
  by (simp add: reconcile_def)

lemma reconcile_shape:
  assumes "reconcile data cols = Inr r"
  shows "length r = length cols" and "map id_column r = map id_column cols"
    and "map label r = map label cols"
  using placeAll_shape [OF assms [unfolded reconcile_placeAll]] filtered_shape [of data cols]
  by simp_all

lemma reconcile_mset:
  assumes "reconcile data cols = Inr r"
  shows "mset (layoutPosts r)
           = mset (filter (\<lambda>post. getPostId post \<in> set (map getPostId data)) (layoutPosts cols))
             + mset (filter (\<lambda>post. getPostId post \<notin> set (layoutIds cols)) data)"
  using placeAll_mset [OF assms [unfolded reconcile_placeAll]]
  by (simp add: filtered_layoutPosts newPosts_alt)

lemma reconcile_ids_mset:
  assumes "reconcile data cols = Inr r"
  shows "mset (layoutIds r)
           = mset (filter (\<lambda>x. x \<in> set (map getPostId data)) (layoutIds cols))
             + mset (filter (\<lambda>x. x \<notin> set (layoutIds cols)) (map getPostId data))"
proof -
  have "mset (layoutIds r) = image_mset getPostId (mset (layoutPosts r))"
    by (simp add: layoutIds_layoutPosts)
  also have "\<dots> = mset (map getPostId
                      (filter (\<lambda>post. getPostId post \<in> set (map getPostId data)) (layoutPosts cols)))
                  + mset (map getPostId
                      (filter (\<lambda>post. getPostId post \<notin> set (layoutIds cols)) data))"
    unfolding reconcile_mset [OF assms] by simp
  finally show ?thesis
    by (simp add: layoutIds_layoutPosts filter_map comp_def)
qed

lemma reconcile_ids_set:
  assumes "reconcile data cols = Inr r"
  shows "set (layoutIds r) = set (map getPostId data)"
proof -
  have "set (layoutIds r) = set_mset (mset (layoutIds r))" by simp
  also have "\<dots> = {x \<in> set (layoutIds cols). x \<in> set (map getPostId data)}
                  \<union> {x \<in> set (map getPostId data). x \<notin> set (layoutIds cols)}"
    unfolding reconcile_ids_mset [OF assms] by auto
  also have "\<dots> = set (map getPostId data)" by blast
  finally show ?thesis .
qed

lemma reconcile_ids_distinct:
  assumes "reconcile data cols = Inr r"
    and "distinct (map getPostId data)" and "distinct (layoutIds cols)"
  shows "distinct (layoutIds r)"
proof -
  let ?old = "filter (\<lambda>x. x \<in> set (map getPostId data)) (layoutIds cols)"
  let ?new = "filter (\<lambda>x. x \<notin> set (layoutIds cols)) (map getPostId data)"
  have "mset (layoutIds r) = mset (?old @ ?new)"
    using reconcile_ids_mset [OF assms(1)] by simp
  then have "distinct (layoutIds r) = distinct (?old @ ?new)"
    by (rule mset_eq_imp_distinct_iff)
  moreover have "distinct (?old @ ?new)" using assms(2,3) by auto
  ultimately show ?thesis by simp
qed

section \<open>Facts about move application\<close>

lemma splice_remove_mset:
  "m < length xs \<Longrightarrow> add_mset (xs ! m) (mset (splice_remove m xs)) = mset xs"
proof -
  assume m: "m < length xs"
  have "xs = take m xs @ xs ! m # drop (Suc m) xs"
    using m by (simp add: id_take_nth_drop)
  then have "mset xs = mset (take m xs @ xs ! m # drop (Suc m) xs)" by simp
  then show ?thesis by (simp add: splice_remove_def)
qed

lemma splice_insert_mset: "mset (splice_insert k x xs) = add_mset x (mset xs)"
proof -
  have "mset xs = mset (take k xs @ drop k xs)" by simp
  then show ?thesis unfolding splice_insert_def by (simp del: append_take_drop_id)
qed

lemma splice_insert_end: "splice_insert (length xs) x xs = xs @ [x]"
  by (simp add: splice_insert_def)

lemma sourceColumnIndex_Some:
  assumes "sourceColumnIndex cols a = Some s"
  shows "s < length cols" and "a \<in> set (columnIds (cols ! s))"
    and "\<forall>j<s. a \<notin> set (columnIds (cols ! j))"
proof -
  note f = findIndex_Some [OF assms [unfolded sourceColumnIndex_def]]
  show "s < length cols" using f by simp
  show "a \<in> set (columnIds (cols ! s))" using f by (auto simp: list_ex_iff columnIds_def)
  show "\<forall>j<s. a \<notin> set (columnIds (cols ! j))"
    using f by (fastforce simp: list_ex_iff columnIds_def)
qed

lemma sourceColumnIndex_None:
  "sourceColumnIndex cols a = None \<longleftrightarrow> a \<notin> set (layoutIds cols)"
  by (auto simp: sourceColumnIndex_def findIndex_None_iff list_ex_iff layoutIds_def columnIds_def)

lemma targetColumnIndex_Some:
  assumes "targetColumnIndex cols ov = Some t"
  shows "t < length cols"
    and "id_column (cols ! t) = ov \<or> ov \<in> set (columnIds (cols ! t))"
    and "\<forall>j<t. id_column (cols ! j) \<noteq> ov \<and> ov \<notin> set (columnIds (cols ! j))"
proof -
  note f = findIndex_Some [OF assms [unfolded targetColumnIndex_def]]
  show "t < length cols" using f by simp
  show "id_column (cols ! t) = ov \<or> ov \<in> set (columnIds (cols ! t))"
    using f by (auto simp: list_ex_iff columnIds_def)
  show "\<forall>j<t. id_column (cols ! j) \<noteq> ov \<and> ov \<notin> set (columnIds (cols ! j))"
    using f by (fastforce simp: list_ex_iff columnIds_def)
qed

lemma targetColumnIndex_None:
  "targetColumnIndex cols ov = None
     \<longleftrightarrow> ov \<notin> set (map id_column cols) \<and> ov \<notin> set (layoutIds cols)"
  by (auto simp: targetColumnIndex_def findIndex_None_iff list_ex_iff layoutIds_def columnIds_def)

lemma movingIndex_Some:
  assumes "sourceColumnIndex cols a = Some s"
  shows "\<exists>m. findIndex (\<lambda>post. getPostId post = a) (posts (cols ! s)) = Some m
             \<and> m < length (posts (cols ! s)) \<and> getPostId (posts (cols ! s) ! m) = a"
proof -
  from sourceColumnIndex_Some(2) [OF assms]
  have "\<exists>x\<in>set (posts (cols ! s)). getPostId x = a" by (auto simp: columnIds_def)
  from findIndex_Some_ex [OF this] obtain m
    where m: "findIndex (\<lambda>post. getPostId post = a) (posts (cols ! s)) = Some m" by blast
  from findIndex_Some [OF m] m show ?thesis by simp
qed

lemma map_update_same:
  "i < length xs \<Longrightarrow> f v = f (xs ! i) \<Longrightarrow> map f (xs[i := v]) = map f xs"
  by (simp add: map_update list_update_same_conv)

lemma insertIndex_le: "insertIndex ov ps \<le> length ps"
  using findIndex_Some [of "\<lambda>post. getPostId post = ov" ps]
  by (auto simp: insertIndex_def split: option.splits)

text \<open>Every path of \<open>applyMove\<close>: the layout itself, or one post taken out of the source
  column and put back somewhere in the target column.\<close>

lemma applyMove_cases:
  "applyMove cols a ov = cols \<or>
   (\<exists>s t m k. sourceColumnIndex cols a = Some s \<and> targetColumnIndex cols ov = Some t
      \<and> findIndex (\<lambda>post. getPostId post = a) (posts (cols ! s)) = Some m
      \<and> applyMove cols a ov =
          (cols[s := (cols ! s)\<lparr>posts := splice_remove m (posts (cols ! s))\<rparr>])
            [t := ((cols[s := (cols ! s)\<lparr>posts := splice_remove m (posts (cols ! s))\<rparr>]) ! t)
               \<lparr>posts := splice_insert k (posts (cols ! s) ! m)
                   (posts ((cols[s := (cols ! s)\<lparr>posts := splice_remove m (posts (cols ! s))\<rparr>]) ! t))\<rparr>])"
proof (cases "sourceColumnIndex cols a")
  case None
  then show ?thesis by (simp add: applyMove_def)
next
  case (Some s)
  note s = this
  show ?thesis
  proof (cases "targetColumnIndex cols ov")
    case None
    then show ?thesis by (simp add: applyMove_def s)
  next
    case (Some t)
    note t = this
    from movingIndex_Some [OF s] obtain m
      where m: "findIndex (\<lambda>post. getPostId post = a) (posts (cols ! s)) = Some m" by blast
    let ?removed = "cols[s := (cols ! s)\<lparr>posts := splice_remove m (posts (cols ! s))\<rparr>]"
    show ?thesis
    proof (cases "s = t \<and> ov = a")
      case True
      with s t show ?thesis by (auto simp: applyMove_def)
    next
      case False
      then have "applyMove cols a ov =
          ?removed[t := (?removed ! t)\<lparr>posts :=
             splice_insert (if s \<noteq> t \<and> id_column (?removed ! t) = ov
                            then length (posts (?removed ! t))
                            else insertIndex ov (posts (?removed ! t)))
               (posts (cols ! s) ! m) (posts (?removed ! t))\<rparr>]"
        by (auto simp: applyMove_def s t m Let_def splice_insert_end)
      with s t m show ?thesis by blast
    qed
  qed
qed

lemma applyMove_shape:
  "length (applyMove cols a ov) = length cols"
  "map id_column (applyMove cols a ov) = map id_column cols"
  "map label (applyMove cols a ov) = map label cols"
proof -
  have "length (applyMove cols a ov) = length cols
        \<and> map id_column (applyMove cols a ov) = map id_column cols
        \<and> map label (applyMove cols a ov) = map label cols"
    using applyMove_cases [of cols a ov]
  proof
    assume "applyMove cols a ov = cols"
    then show ?thesis by simp
  next
    assume "\<exists>s t m k. sourceColumnIndex cols a = Some s \<and> targetColumnIndex cols ov = Some t
      \<and> findIndex (\<lambda>post. getPostId post = a) (posts (cols ! s)) = Some m
      \<and> applyMove cols a ov =
          (cols[s := (cols ! s)\<lparr>posts := splice_remove m (posts (cols ! s))\<rparr>])
            [t := ((cols[s := (cols ! s)\<lparr>posts := splice_remove m (posts (cols ! s))\<rparr>]) ! t)
               \<lparr>posts := splice_insert k (posts (cols ! s) ! m)
                   (posts ((cols[s := (cols ! s)\<lparr>posts := splice_remove m (posts (cols ! s))\<rparr>]) ! t))\<rparr>]"
    then obtain s t m k where
      s: "sourceColumnIndex cols a = Some s" and t: "targetColumnIndex cols ov = Some t"
      and eq: "applyMove cols a ov =
          (cols[s := (cols ! s)\<lparr>posts := splice_remove m (posts (cols ! s))\<rparr>])
            [t := ((cols[s := (cols ! s)\<lparr>posts := splice_remove m (posts (cols ! s))\<rparr>]) ! t)
               \<lparr>posts := splice_insert k (posts (cols ! s) ! m)
                   (posts ((cols[s := (cols ! s)\<lparr>posts := splice_remove m (posts (cols ! s))\<rparr>]) ! t))\<rparr>]"
      by blast
    note sl = sourceColumnIndex_Some(1) [OF s] and tl = targetColumnIndex_Some(1) [OF t]
    show ?thesis unfolding eq using sl tl
      by (simp add: map_update_same)
  qed
  then show "length (applyMove cols a ov) = length cols"
    "map id_column (applyMove cols a ov) = map id_column cols"
    "map label (applyMove cols a ov) = map label cols" by simp_all
qed

lemma applyMove_mset: "mset (layoutPosts (applyMove cols a ov)) = mset (layoutPosts cols)"
  using applyMove_cases [of cols a ov]
proof
  assume "applyMove cols a ov = cols"
  then show ?thesis by simp
next
  assume "\<exists>s t m k. sourceColumnIndex cols a = Some s \<and> targetColumnIndex cols ov = Some t
      \<and> findIndex (\<lambda>post. getPostId post = a) (posts (cols ! s)) = Some m
      \<and> applyMove cols a ov =
          (cols[s := (cols ! s)\<lparr>posts := splice_remove m (posts (cols ! s))\<rparr>])
            [t := ((cols[s := (cols ! s)\<lparr>posts := splice_remove m (posts (cols ! s))\<rparr>]) ! t)
               \<lparr>posts := splice_insert k (posts (cols ! s) ! m)
                   (posts ((cols[s := (cols ! s)\<lparr>posts := splice_remove m (posts (cols ! s))\<rparr>]) ! t))\<rparr>]"
  then obtain s t m k where
    s: "sourceColumnIndex cols a = Some s" and t: "targetColumnIndex cols ov = Some t"
    and m: "findIndex (\<lambda>post. getPostId post = a) (posts (cols ! s)) = Some m"
    and eq: "applyMove cols a ov =
        (cols[s := (cols ! s)\<lparr>posts := splice_remove m (posts (cols ! s))\<rparr>])
          [t := ((cols[s := (cols ! s)\<lparr>posts := splice_remove m (posts (cols ! s))\<rparr>]) ! t)
             \<lparr>posts := splice_insert k (posts (cols ! s) ! m)
                 (posts ((cols[s := (cols ! s)\<lparr>posts := splice_remove m (posts (cols ! s))\<rparr>]) ! t))\<rparr>]"
    by blast
  let ?removed = "cols[s := (cols ! s)\<lparr>posts := splice_remove m (posts (cols ! s))\<rparr>]"
  let ?mp = "posts (cols ! s) ! m"
  note sl = sourceColumnIndex_Some(1) [OF s] and tl = targetColumnIndex_Some(1) [OF t]
  have ml: "m < length (posts (cols ! s))" using findIndex_Some [OF m] by simp
  have tl': "t < length ?removed" using tl by simp
  have "mset (layoutPosts ?removed) + mset (posts (cols ! s))
          = mset (layoutPosts cols) + mset (splice_remove m (posts (cols ! s)))"
    by (rule layoutPosts_update [OF sl])
  then have "mset (layoutPosts ?removed) + add_mset ?mp (mset (splice_remove m (posts (cols ! s))))
          = mset (layoutPosts cols) + mset (splice_remove m (posts (cols ! s)))"
    by (simp only: splice_remove_mset [OF ml])
  then have r: "add_mset ?mp (mset (layoutPosts ?removed)) = mset (layoutPosts cols)"
    by simp
  have "mset (layoutPosts (applyMove cols a ov)) + mset (posts (?removed ! t))
          = mset (layoutPosts ?removed) + mset (splice_insert k ?mp (posts (?removed ! t)))"
    unfolding eq by (rule layoutPosts_update [OF tl'])
  then have "mset (layoutPosts (applyMove cols a ov)) = add_mset ?mp (mset (layoutPosts ?removed))"
    by (simp add: splice_insert_mset)
  with r show ?thesis by simp
qed

lemma applyMove_frame:
  assumes "i < length cols"
    and "sourceColumnIndex cols a \<noteq> Some i" and "targetColumnIndex cols ov \<noteq> Some i"
  shows "applyMove cols a ov ! i = cols ! i"
  using applyMove_cases [of cols a ov]
proof
  assume "applyMove cols a ov = cols"
  then show ?thesis by simp
next
  assume "\<exists>s t m k. sourceColumnIndex cols a = Some s \<and> targetColumnIndex cols ov = Some t
      \<and> findIndex (\<lambda>post. getPostId post = a) (posts (cols ! s)) = Some m
      \<and> applyMove cols a ov =
          (cols[s := (cols ! s)\<lparr>posts := splice_remove m (posts (cols ! s))\<rparr>])
            [t := ((cols[s := (cols ! s)\<lparr>posts := splice_remove m (posts (cols ! s))\<rparr>]) ! t)
               \<lparr>posts := splice_insert k (posts (cols ! s) ! m)
                   (posts ((cols[s := (cols ! s)\<lparr>posts := splice_remove m (posts (cols ! s))\<rparr>]) ! t))\<rparr>]"
  then obtain s t m k where
    s: "sourceColumnIndex cols a = Some s" and t: "targetColumnIndex cols ov = Some t"
    and eq: "applyMove cols a ov =
        (cols[s := (cols ! s)\<lparr>posts := splice_remove m (posts (cols ! s))\<rparr>])
          [t := ((cols[s := (cols ! s)\<lparr>posts := splice_remove m (posts (cols ! s))\<rparr>]) ! t)
             \<lparr>posts := splice_insert k (posts (cols ! s) ! m)
                 (posts ((cols[s := (cols ! s)\<lparr>posts := splice_remove m (posts (cols ! s))\<rparr>]) ! t))\<rparr>]"
    by blast
  have "s \<noteq> i" "t \<noteq> i" using assms(2,3) s t by auto
  then show ?thesis unfolding eq by simp
qed

lemma layoutIds_mset_cong:
  "mset (layoutPosts xs) = mset (layoutPosts ys) \<Longrightarrow> mset (layoutIds xs) = mset (layoutIds ys)"
proof -
  assume "mset (layoutPosts xs) = mset (layoutPosts ys)"
  then have "image_mset getPostId (mset (layoutPosts xs)) = image_mset getPostId (mset (layoutPosts ys))"
    by simp
  then show ?thesis by (simp add: layoutIds_layoutPosts)
qed

section \<open>The claims\<close>

text \<open>
  C10. A drag never loses or duplicates an item: on every path of \<open>applyMove\<close> (a move across
  columns, a reorder within a column, any branch that changes nothing) the posts of the
  layout, taken over all columns as a multiset, are the posts it held before, and so are
  their identifiers. The same holds for \<open>handleDragEnd\<close> with or without a drop target.
\<close>

theorem applyMove_conserves_items:
  "mset (layoutPosts (applyMove cols activeId overId)) = mset (layoutPosts cols)
   \<and> mset (layoutIds (applyMove cols activeId overId)) = mset (layoutIds cols)
   \<and> mset (layoutIds (handleDragEnd activeId over cols)) = mset (layoutIds cols)"
proof -
  have p: "mset (layoutPosts (applyMove cols a ov)) = mset (layoutPosts cols)" for a ov
    by (rule applyMove_mset)
  have i: "mset (layoutIds (applyMove cols a ov)) = mset (layoutIds cols)" for a ov
    by (rule layoutIds_mset_cong [OF p])
  have "mset (layoutIds (handleDragEnd activeId over cols)) = mset (layoutIds cols)"
    by (cases over) (simp_all add: handleDragEnd_def i)
  with p i show ?thesis by simp
qed

text \<open>
  C7. \<open>applyMove\<close> returns the layout it was given when the gesture cannot be resolved or is
  degenerate: when no column holds the dragged identifier; when the drop identifier is
  neither a column identity nor the identifier of a placed post; and when the drop target is
  the dragged post itself in the same column (source and target column coincide and the drop
  identifier is the dragged identifier). Where no column identity is a post identifier, a
  drop on the dragged post itself always resolves to its own column. In particular the
  layout with post 1 alone in the first column is unchanged by dragging 1 over
  \<open>nonexistent\<close>.
\<close>

theorem applyMove_noop:
  "(activeId \<notin> set (layoutIds cols) \<longrightarrow> applyMove cols activeId overId = cols)
   \<and> (overId \<notin> set (map id_column cols) \<and> overId \<notin> set (layoutIds cols)
        \<longrightarrow> applyMove cols activeId overId = cols)
   \<and> (sourceColumnIndex cols activeId = targetColumnIndex cols overId \<and> overId = activeId
        \<longrightarrow> applyMove cols activeId overId = cols)
   \<and> (activeId \<notin> set (map id_column cols) \<longrightarrow> applyMove cols activeId activeId = cols)
   \<and> applyMove (withPosts [[1], [], [], []]) ''1'' ''nonexistent'' = withPosts [[1], [], [], []]"
proof -
  have a: "activeId \<notin> set (layoutIds cols) \<longrightarrow> applyMove cols activeId overId = cols"
    by (simp add: applyMove_def sourceColumnIndex_None [symmetric])
  have b: "overId \<notin> set (map id_column cols) \<and> overId \<notin> set (layoutIds cols)
             \<longrightarrow> applyMove cols activeId overId = cols"
    using targetColumnIndex_None [of cols overId]
    by (auto simp: applyMove_def split: option.splits)
  have c: "sourceColumnIndex cols activeId = targetColumnIndex cols overId \<and> overId = activeId
             \<longrightarrow> applyMove cols activeId overId = cols"
    by (auto simp: applyMove_def split: option.splits)
  have same: "sourceColumnIndex cols activeId = targetColumnIndex cols activeId"
    if "activeId \<notin> set (map id_column cols)"
  proof -
    have "(\<lambda>column. id_column column = activeId
                      \<or> list_ex (\<lambda>post. getPostId post = activeId) (posts column)) c
          = (\<lambda>column. list_ex (\<lambda>post. getPostId post = activeId) (posts column)) c"
      if "c \<in> set cols" for c
      using that \<open>activeId \<notin> set (map id_column cols)\<close> by auto
    then have "findIndex (\<lambda>column. id_column column = activeId
                      \<or> list_ex (\<lambda>post. getPostId post = activeId) (posts column)) cols
          = findIndex (\<lambda>column. list_ex (\<lambda>post. getPostId post = activeId) (posts column)) cols"
      by (induction cols) simp_all
    then show ?thesis by (simp add: sourceColumnIndex_def targetColumnIndex_def)
  qed
  have d: "activeId \<notin> set (map id_column cols) \<longrightarrow> applyMove cols activeId activeId = cols"
    using same by (auto simp: applyMove_def split: option.splits)
  have e: "applyMove (withPosts [[1], [], [], []]) ''1'' ''nonexistent'' = withPosts [[1], [], [], []]"
    by code_simp
  from a b c d e show ?thesis by blast
qed

theorem applyMove_noop_witness:
  "''9'' \<notin> set (layoutIds (withPosts [[1, 2], [3], [], []]))
   \<and> applyMove (withPosts [[1, 2], [3], [], []]) ''9'' ''3'' = withPosts [[1, 2], [3], [], []]
   \<and> ''column-7'' \<notin> set (map id_column (withPosts [[1, 2], [3], [], []]))
   \<and> ''column-7'' \<notin> set (layoutIds (withPosts [[1, 2], [3], [], []]))
   \<and> applyMove (withPosts [[1, 2], [3], [], []]) ''2'' ''column-7'' = withPosts [[1, 2], [3], [], []]
   \<and> sourceColumnIndex (withPosts [[1, 2], [3], [], []]) ''3'' = Some 1
   \<and> targetColumnIndex (withPosts [[1, 2], [3], [], []]) ''3'' = Some 1
   \<and> ''3'' \<notin> set (map id_column (withPosts [[1, 2], [3], [], []]))
   \<and> applyMove (withPosts [[1, 2], [3], [], []]) ''3'' ''3'' = withPosts [[1, 2], [3], [], []]
   \<and> ''1'' \<notin> set (map id_column (withPosts [[1, 2], [3], [], []]))
   \<and> applyMove (withPosts [[1, 2], [3], [], []]) ''1'' ''1'' = withPosts [[1, 2], [3], [], []]"
proof -
  let ?L = "withPosts [[1, 2], [3], [], []]"
  have h1: "''9'' \<notin> set (layoutIds ?L)" by code_simp
  have h2: "''column-7'' \<notin> set (map id_column ?L)" by code_simp
  have h3: "''column-7'' \<notin> set (layoutIds ?L)" by code_simp
  have h4: "sourceColumnIndex ?L ''3'' = Some 1" by code_simp
  have h5: "targetColumnIndex ?L ''3'' = Some 1" by code_simp
  have h6: "''3'' \<notin> set (map id_column ?L)" by code_simp
  from applyMove_noop [of "''9''" ?L "''3''"] h1
  have r1: "applyMove ?L ''9'' ''3'' = ?L" by blast
  from applyMove_noop [of "''2''" ?L "''column-7''"] h2 h3
  have r2: "applyMove ?L ''2'' ''column-7'' = ?L" by blast
  from applyMove_noop [of "''3''" ?L "''3''"] h4 h5
  have r3: "applyMove ?L ''3'' ''3'' = ?L" by simp
  have h7: "''1'' \<notin> set (map id_column ?L)" by code_simp
  from applyMove_noop [of "''1''" ?L] h7
  have r4: "applyMove ?L ''1'' ''1'' = ?L" by blast
  from h1 h2 h3 h4 h5 h6 h7 r1 r2 r3 r4 show ?thesis by blast
qed

text \<open>
  C9. A move leaves every column other than the resolved source and target column exactly as
  it was (identity, heading and posts), and no transition adds, removes or reorders columns:
  after \<open>applyMove\<close>, and after a reconciliation that returns, the layout has the same number
  of columns with the same identities and headings in the same order.
\<close>

theorem applyMove_frame_columns:
  "(\<forall>i<length cols. sourceColumnIndex cols activeId \<noteq> Some i
        \<and> targetColumnIndex cols overId \<noteq> Some i
        \<longrightarrow> applyMove cols activeId overId ! i = cols ! i)
   \<and> length (applyMove cols activeId overId) = length cols
   \<and> map id_column (applyMove cols activeId overId) = map id_column cols
   \<and> map label (applyMove cols activeId overId) = map label cols
   \<and> (reconcile data cols = Inr r
        \<longrightarrow> length r = length cols \<and> map id_column r = map id_column cols
            \<and> map label r = map label cols)"
proof -
  have "\<forall>i<length cols. sourceColumnIndex cols activeId \<noteq> Some i
        \<and> targetColumnIndex cols overId \<noteq> Some i
        \<longrightarrow> applyMove cols activeId overId ! i = cols ! i"
    by (simp add: applyMove_frame)
  moreover have "reconcile data cols = Inr r
        \<longrightarrow> length r = length cols \<and> map id_column r = map id_column cols
            \<and> map label r = map label cols"
    using reconcile_shape [of data cols r] by blast
  ultimately show ?thesis
    using applyMove_shape [of cols activeId overId] by blast
qed

theorem applyMove_frame_columns_witness:
  "sourceColumnIndex (withPosts [[1, 2], [3], [4], []]) ''2'' \<noteq> Some 2
   \<and> targetColumnIndex (withPosts [[1, 2], [3], [4], []]) ''3'' \<noteq> Some 2
   \<and> applyMove (withPosts [[1, 2], [3], [4], []]) ''2'' ''3'' ! 2 = withPosts [[1, 2], [3], [4], []] ! 2
   \<and> applyMove (withPosts [[1, 2], [3], [4], []]) ''2'' ''3'' \<noteq> withPosts [[1, 2], [3], [4], []]
   \<and> reconcile (map samplePost [1, 3, 5]) (withPosts [[1, 2], [3], [4], []])
        = Inr (withPosts [[1], [3], [5], []])
   \<and> map id_column (withPosts [[1], [3], [5], []]) = map id_column (withPosts [[1, 2], [3], [4], []])"
proof -
  let ?L = "withPosts [[1, 2], [3], [4], []]"
  have h1: "sourceColumnIndex ?L ''2'' \<noteq> Some 2" by code_simp
  have h2: "targetColumnIndex ?L ''3'' \<noteq> Some 2" by code_simp
  have h3: "(2::nat) < length ?L" by code_simp
  have h4: "applyMove ?L ''2'' ''3'' \<noteq> ?L" by code_simp
  have h5: "reconcile (map samplePost [1, 3, 5]) ?L = Inr (withPosts [[1], [3], [5], []])"
    by code_simp
  from applyMove_frame_columns [of ?L "''2''" "''3''" "map samplePost [1, 3, 5]"
      "withPosts [[1], [3], [5], []]"] h1 h2 h3 h5
  have "applyMove ?L ''2'' ''3'' ! 2 = ?L ! 2
        \<and> map id_column (withPosts [[1], [3], [5], []]) = map id_column ?L"
    by blast
  with h1 h2 h4 h5 show ?thesis by blast
qed

text \<open>A layout without any column is the one input on which the reconciliation code
  fails: the first new post finds no column to go to.\<close>

lemma reconcile_no_columns: "newPosts data [] \<noteq> [] \<Longrightarrow> reconcile data [] = Inl TypeError"
proof -
  assume n: "newPosts data [] \<noteq> []"
  then obtain p ps where ps: "newPosts data [] = p # ps" by (cases "newPosts data []") auto
  have "placePost [] p = Inl TypeError" by (simp add: placePost_def)
  then show ?thesis using n by (simp add: reconcile_def ps filtered_def)
qed




lemma insertIndex_found:
  assumes "ov \<in> set (map getPostId ps)"
  shows "\<exists>k. findIndex (\<lambda>post. getPostId post = ov) ps = Some k \<and> insertIndex ov ps = k
             \<and> k < length ps \<and> getPostId (ps ! k) = ov"
proof -
  from assms have "\<exists>x\<in>set ps. getPostId x = ov" by auto
  from findIndex_Some_ex [OF this] obtain k
    where k: "findIndex (\<lambda>post. getPostId post = ov) ps = Some k" by blast
  from findIndex_Some [OF k] k show ?thesis by (simp add: insertIndex_def)
qed

lemma insertIndex_missing:
  assumes "ov \<notin> set (map getPostId ps)"
  shows "insertIndex ov ps = length ps"
proof -
  from assms have "\<forall>x\<in>set ps. getPostId x \<noteq> ov" by auto
  then have "findIndex (\<lambda>post. getPostId post = ov) ps = None"
    by (simp add: findIndex_None_iff)
  then show ?thesis by (simp add: insertIndex_def)
qed

text \<open>
  C6. A drag that ends over the identifier of a post in another column (the drop identifier
  is not the identity of the target column) takes the dragged post out of its source column
  and puts it into the target column immediately in front of the first post with the drop
  identifier; all positions are those of the first match. Whenever a move takes place and no
  post of the target column (as it is after the removal) has the drop identifier, the
  dragged post goes to the end of the target column. On the layout with posts 1, 2 in the
  first column and 3 in the second, dragging 2 over 3 gives 1 in the first column and 2, 3
  in the second.
\<close>

theorem applyMove_cross_column:
  "(sourceColumnIndex cols activeId = Some s \<and> targetColumnIndex cols overId = Some t
      \<and> s \<noteq> t \<and> id_column (cols ! t) \<noteq> overId
     \<longrightarrow> (\<exists>m k. findIndex (\<lambda>post. getPostId post = activeId) (posts (cols ! s)) = Some m
             \<and> findIndex (\<lambda>post. getPostId post = overId) (posts (cols ! t)) = Some k
             \<and> applyMove cols activeId overId =
                 cols[s := (cols ! s)\<lparr>posts := take m (posts (cols ! s)) @ drop (Suc m) (posts (cols ! s))\<rparr>,
                      t := (cols ! t)\<lparr>posts := take k (posts (cols ! t)) @ posts (cols ! s) ! m
                                                  # drop k (posts (cols ! t))\<rparr>]))
   \<and> (sourceColumnIndex cols activeId = Some s \<and> targetColumnIndex cols overId = Some t
      \<and> \<not> (s = t \<and> overId = activeId)
      \<and> findIndex (\<lambda>post. getPostId post = activeId) (posts (cols ! s)) = Some m
      \<and> overId \<notin> set (columnIds
            ((cols[s := (cols ! s)\<lparr>posts := splice_remove m (posts (cols ! s))\<rparr>]) ! t))
     \<longrightarrow> posts (applyMove cols activeId overId ! t)
           = posts ((cols[s := (cols ! s)\<lparr>posts := splice_remove m (posts (cols ! s))\<rparr>]) ! t)
             @ [posts (cols ! s) ! m])
   \<and> applyMove (withPosts [[1, 2], [3], [], []]) ''2'' ''3'' = withPosts [[1], [2, 3], [], []]"
proof -
  have part1: "\<exists>m k. findIndex (\<lambda>post. getPostId post = activeId) (posts (cols ! s)) = Some m
             \<and> findIndex (\<lambda>post. getPostId post = overId) (posts (cols ! t)) = Some k
             \<and> applyMove cols activeId overId =
                 cols[s := (cols ! s)\<lparr>posts := take m (posts (cols ! s)) @ drop (Suc m) (posts (cols ! s))\<rparr>,
                      t := (cols ! t)\<lparr>posts := take k (posts (cols ! t)) @ posts (cols ! s) ! m
                                                  # drop k (posts (cols ! t))\<rparr>]"
    if s: "sourceColumnIndex cols activeId = Some s" and t: "targetColumnIndex cols overId = Some t"
      and ne: "s \<noteq> t" and nid: "id_column (cols ! t) \<noteq> overId"
  proof -
    from movingIndex_Some [OF s] obtain m
      where m: "findIndex (\<lambda>post. getPostId post = activeId) (posts (cols ! s)) = Some m"
      by blast
    from targetColumnIndex_Some(2) [OF t] nid
    have "overId \<in> set (map getPostId (posts (cols ! t)))" by (simp add: columnIds_def)
    from insertIndex_found [OF this] obtain k
      where k: "findIndex (\<lambda>post. getPostId post = overId) (posts (cols ! t)) = Some k"
        "insertIndex overId (posts (cols ! t)) = k" by blast
    have "applyMove cols activeId overId =
                 cols[s := (cols ! s)\<lparr>posts := take m (posts (cols ! s)) @ drop (Suc m) (posts (cols ! s))\<rparr>,
                      t := (cols ! t)\<lparr>posts := take k (posts (cols ! t)) @ posts (cols ! s) ! m
                                                  # drop k (posts (cols ! t))\<rparr>]"
      using ne nid k(2)
      by (simp add: applyMove_def s t m Let_def splice_remove_def splice_insert_def)
    with m k(1) show ?thesis by blast
  qed
  have part2: "posts (applyMove cols activeId overId ! t)
           = posts ((cols[s := (cols ! s)\<lparr>posts := splice_remove m (posts (cols ! s))\<rparr>]) ! t)
             @ [posts (cols ! s) ! m]"
    if s: "sourceColumnIndex cols activeId = Some s" and t: "targetColumnIndex cols overId = Some t"
      and nn: "\<not> (s = t \<and> overId = activeId)"
      and m: "findIndex (\<lambda>post. getPostId post = activeId) (posts (cols ! s)) = Some m"
      and missing: "overId \<notin> set (columnIds
            ((cols[s := (cols ! s)\<lparr>posts := splice_remove m (posts (cols ! s))\<rparr>]) ! t))"
  proof -
    let ?removed = "cols[s := (cols ! s)\<lparr>posts := splice_remove m (posts (cols ! s))\<rparr>]"
    have tl: "t < length ?removed" using targetColumnIndex_Some(1) [OF t] by simp
    have "insertIndex overId (posts (?removed ! t)) = length (posts (?removed ! t))"
      using missing by (intro insertIndex_missing) (simp add: columnIds_def)
    then have "applyMove cols activeId overId
                 = ?removed[t := (?removed ! t)\<lparr>posts := posts (?removed ! t) @ [posts (cols ! s) ! m]\<rparr>]"
      using nn by (auto simp: applyMove_def s t m Let_def splice_insert_end)
    then show ?thesis using tl by simp
  qed
  have part3: "applyMove (withPosts [[1, 2], [3], [], []]) ''2'' ''3'' = withPosts [[1], [2, 3], [], []]"
    by code_simp
  from part1 part2 part3 show ?thesis by blast
qed

theorem applyMove_cross_column_witness:
  "sourceColumnIndex (withPosts [[1, 2], [4, 3, 5], [], []]) ''2'' = Some 0
   \<and> targetColumnIndex (withPosts [[1, 2], [4, 3, 5], [], []]) ''3'' = Some 1
   \<and> id_column (withPosts [[1, 2], [4, 3, 5], [], []] ! 1) \<noteq> ''3''
   \<and> applyMove (withPosts [[1, 2], [4, 3, 5], [], []]) ''2'' ''3''
        = withPosts [[1], [4, 2, 3, 5], [], []]
   \<and> targetColumnIndex (withPosts [[1, 2], [4, 3, 5], [], []]) ''column-0'' = Some 0
   \<and> findIndex (\<lambda>post. getPostId post = ''1'') (posts (withPosts [[1, 2], [4, 3, 5], [], []] ! 0)) = Some 0
   \<and> posts (applyMove (withPosts [[1, 2], [4, 3, 5], [], []]) ''1'' ''column-0'' ! 0)
        = map samplePost [2, 1]"
proof -
  let ?L = "withPosts [[1, 2], [4, 3, 5], [], []]"
  have s: "sourceColumnIndex ?L ''2'' = Some 0" by code_simp
  have t: "targetColumnIndex ?L ''3'' = Some 1" by code_simp
  have ne: "(0::nat) \<noteq> 1" by simp
  have nid: "id_column (?L ! 1) \<noteq> ''3''" by code_simp
  from applyMove_cross_column [of ?L "''2''" 0 "''3''" 1 0] s t ne nid
  obtain m k where
    m: "findIndex (\<lambda>post. getPostId post = ''2'') (posts (?L ! 0)) = Some m" and
    k: "findIndex (\<lambda>post. getPostId post = ''3'') (posts (?L ! 1)) = Some k" and
    eq: "applyMove ?L ''2'' ''3'' =
           ?L[0 := (?L ! 0)\<lparr>posts := take m (posts (?L ! 0)) @ drop (Suc m) (posts (?L ! 0))\<rparr>,
              1 := (?L ! 1)\<lparr>posts := take k (posts (?L ! 1)) @ posts (?L ! 0) ! m
                                        # drop k (posts (?L ! 1))\<rparr>]"
    by blast
  have "findIndex (\<lambda>post. getPostId post = ''2'') (posts (?L ! 0)) = Some 1" by code_simp
  with m have m1: "m = 1" by simp
  have "findIndex (\<lambda>post. getPostId post = ''3'') (posts (?L ! 1)) = Some 1" by code_simp
  with k have k1: "k = 1" by simp
  have "?L[0 := (?L ! 0)\<lparr>posts := take 1 (posts (?L ! 0)) @ drop (Suc 1) (posts (?L ! 0))\<rparr>,
           1 := (?L ! 1)\<lparr>posts := take 1 (posts (?L ! 1)) @ posts (?L ! 0) ! 1
                                     # drop 1 (posts (?L ! 1))\<rparr>]
        = withPosts [[1], [4, 2, 3, 5], [], []]"
    by code_simp
  with eq m1 k1 have r1: "applyMove ?L ''2'' ''3'' = withPosts [[1], [4, 2, 3, 5], [], []]"
    by simp
  have s2: "sourceColumnIndex ?L ''1'' = Some 0" by code_simp
  have t2: "targetColumnIndex ?L ''column-0'' = Some 0" by code_simp
  have nn: "\<not> ((0::nat) = 0 \<and> ''column-0'' = ''1'')" by simp
  have m2: "findIndex (\<lambda>post. getPostId post = ''1'') (posts (?L ! 0)) = Some 0" by code_simp
  have miss: "''column-0'' \<notin> set (columnIds
            ((?L[0 := (?L ! 0)\<lparr>posts := splice_remove 0 (posts (?L ! 0))\<rparr>]) ! 0))"
    by code_simp
  from applyMove_cross_column [of ?L "''1''" 0 "''column-0''" 0 0] s2 t2 nn m2 miss
  have e2: "posts (applyMove ?L ''1'' ''column-0'' ! 0)
           = posts ((?L[0 := (?L ! 0)\<lparr>posts := splice_remove 0 (posts (?L ! 0))\<rparr>]) ! 0)
             @ [posts (?L ! 0) ! 0]"
    by blast
  have "posts ((?L[0 := (?L ! 0)\<lparr>posts := splice_remove 0 (posts (?L ! 0))\<rparr>]) ! 0)
             @ [posts (?L ! 0) ! 0] = map samplePost [2, 1]"
    by code_simp
  with e2 have r2: "posts (applyMove ?L ''1'' ''column-0'' ! 0) = map samplePost [2, 1]"
    by simp
  from s t nid r1 t2 m2 r2 show ?thesis by blast
qed

text \<open>
  C1 (as amended). For every layout with at least one column and every incoming item list,
  reconciliation returns a layout whose identifiers, taken over all columns, are as a set
  exactly the identifiers of the incoming list. No identifier occurs twice in the returned
  layout provided that no identifier occurs twice in the incoming list and none occurs twice
  in the layout given: the code removes stale posts and skips posts already placed, it does
  not remove duplicates. The claim as stated fails on an incoming list that names one
  identifier twice, and on a layout that already holds one twice.
\<close>

theorem reconcile_coverage:
  assumes "cols \<noteq> []"
  shows "\<exists>r. reconcile data cols = Inr r
            \<and> set (layoutIds r) = set (map getPostId data)
            \<and> (distinct (map getPostId data) \<and> distinct (layoutIds cols)
                  \<longrightarrow> distinct (layoutIds r))"
proof -
  from reconcile_total [OF assms] obtain r where r: "reconcile data cols = Inr r" by blast
  have "set (layoutIds r) = set (map getPostId data)" by (rule reconcile_ids_set [OF r])
  moreover have "distinct (map getPostId data) \<and> distinct (layoutIds cols)
                  \<longrightarrow> distinct (layoutIds r)"
    using reconcile_ids_distinct [OF r] by blast
  ultimately show ?thesis using r by blast
qed

theorem reconcile_coverage_witness:
  "withPosts [[1, 2], [3], [4], []] \<noteq> []
   \<and> distinct (map getPostId (map samplePost [5, 3, 1, 6]))
   \<and> distinct (layoutIds (withPosts [[1, 2], [3], [4], []]))
   \<and> (\<exists>r. reconcile (map samplePost [5, 3, 1, 6]) (withPosts [[1, 2], [3], [4], []]) = Inr r
          \<and> set (layoutIds r) = {''5'', ''3'', ''1'', ''6''}
          \<and> distinct (layoutIds r))"
proof -
  let ?L = "withPosts [[1, 2], [3], [4], []]"
  let ?d = "map samplePost [5, 3, 1, 6]"
  have h: "?L \<noteq> []" by code_simp
  have d1: "distinct (map getPostId ?d)" by code_simp
  have d2: "distinct (layoutIds ?L)" by code_simp
  have s: "set (map getPostId ?d) = {''5'', ''3'', ''1'', ''6''}" by code_simp
  from reconcile_coverage [OF h, of ?d] obtain r where
    r: "reconcile ?d ?L = Inr r" "set (layoutIds r) = set (map getPostId ?d)"
       "distinct (map getPostId ?d) \<and> distinct (layoutIds ?L) \<longrightarrow> distinct (layoutIds r)"
    by blast
  from r(3) d1 d2 have "distinct (layoutIds r)" by simp
  with r(1) r(2) s have "\<exists>r. reconcile ?d ?L = Inr r
          \<and> set (layoutIds r) = {''5'', ''3'', ''1'', ''6''} \<and> distinct (layoutIds r)"
    by simp
  with h d1 d2 show ?thesis by (intro conjI)
qed

text \<open>The claim C1 as stated is false: an incoming list that names identifier 1 twice puts
  it into two columns of the empty layout, and a layout that holds 1 in two columns keeps
  both.\<close>

theorem reconcile_coverage_counterexample:
  "reconcile [samplePost 1, samplePost 1] createEmptyColumns = Inr (withPosts [[1], [1], [], []])
   \<and> \<not> distinct (layoutIds (withPosts [[1], [1], [], []]))
   \<and> reconcile [samplePost 1] (withPosts [[1], [1], [], []]) = Inr (withPosts [[1], [1], [], []])"
  by code_simp

text \<open>
  C3 (as amended). An identifier that no column of the layout holds is placed once for each
  of its occurrences in the incoming list: the set of identifiers already placed is computed
  once, before any post is placed, so a second occurrence is not treated as already placed.
  With two occurrences the returned layout holds the identifier twice. An identifier the
  layout already holds is not added again, however often the incoming list names it.
\<close>

theorem reconcile_places_every_occurrence:
  assumes "cols \<noteq> []"
  shows "\<exists>r. reconcile data cols = Inr r
            \<and> (x \<notin> set (layoutIds cols)
                 \<longrightarrow> count_list (layoutIds r) x = count_list (map getPostId data) x)
            \<and> (x \<in> set (layoutIds cols) \<and> x \<in> set (map getPostId data)
                 \<longrightarrow> count_list (layoutIds r) x = count_list (layoutIds cols) x)"
proof -
  from reconcile_total [OF assms] obtain r where r: "reconcile data cols = Inr r" by blast
  have c: "count_list (layoutIds r) x
             = count (mset (filter (\<lambda>x. x \<in> set (map getPostId data)) (layoutIds cols))) x
               + count (mset (filter (\<lambda>x. x \<notin> set (layoutIds cols)) (map getPostId data))) x"
    using reconcile_ids_mset [OF r] by (metis count_mset count_union)
  have a: "count_list (layoutIds r) x = count_list (map getPostId data) x"
    if "x \<notin> set (layoutIds cols)"
    using that c by (simp add: count_mset [symmetric] count_list_0_iff del: count_mset)
  have b: "count_list (layoutIds r) x = count_list (layoutIds cols) x"
    if "x \<in> set (layoutIds cols)" "x \<in> set (map getPostId data)"
    using that c by (simp add: count_mset [symmetric] del: count_mset)
  from r a b show ?thesis by blast
qed

theorem reconcile_places_every_occurrence_witness:
  "withPosts [[1], [2], [], []] \<noteq> []
   \<and> ''7'' \<notin> set (layoutIds (withPosts [[1], [2], [], []]))
   \<and> (\<exists>r. reconcile (map samplePost [1, 2, 7, 7, 1]) (withPosts [[1], [2], [], []]) = Inr r
          \<and> count_list (layoutIds r) ''7'' = 2)
   \<and> ''1'' \<in> set (layoutIds (withPosts [[1], [2], [], []]))
   \<and> ''1'' \<in> set (map getPostId (map samplePost [1, 2, 7, 7, 1]))
   \<and> (\<exists>r. reconcile (map samplePost [1, 2, 7, 7, 1]) (withPosts [[1], [2], [], []]) = Inr r
          \<and> count_list (layoutIds r) ''1'' = 1)"
proof -
  let ?L = "withPosts [[1], [2], [], []]"
  let ?d = "map samplePost [1, 2, 7, 7, 1]"
  have h: "?L \<noteq> []" by code_simp
  have n7: "''7'' \<notin> set (layoutIds ?L)" by code_simp
  have c7: "count_list (map getPostId ?d) ''7'' = 2" by code_simp
  have i1: "''1'' \<in> set (layoutIds ?L)" by code_simp
  have j1: "''1'' \<in> set (map getPostId ?d)" by code_simp
  have c1: "count_list (layoutIds ?L) ''1'' = 1" by code_simp
  from reconcile_places_every_occurrence [OF h, of ?d "''7''"] n7 c7
  have a: "\<exists>r. reconcile ?d ?L = Inr r \<and> count_list (layoutIds r) ''7'' = 2"
    by (elim exE conjE) (rule exI, simp)
  from reconcile_places_every_occurrence [OF h, of ?d "''1''"] i1 j1 c1
  have b: "\<exists>r. reconcile ?d ?L = Inr r \<and> count_list (layoutIds r) ''1'' = 1"
    by (elim exE conjE) (rule exI, simp)
  from h n7 a i1 j1 b show ?thesis by (intro conjI)
qed

text \<open>The claim C3 as stated is false: two incoming posts with the new identifier 7 (the
  second told apart by its title) are both placed, the second in the next column, and the
  returned layout holds the identifier twice.\<close>

theorem reconcile_duplicate_counterexample:
  "reconcile [samplePost 1, samplePost 2, samplePost 7, (samplePost 7)\<lparr>title_rendered := ''second''\<rparr>]
       (withPosts [[1], [2], [], []])
     = Inr ((withPosts [[1], [2], [7], []])
              [3 := (createEmptyColumns ! 3)\<lparr>posts := [(samplePost 7)\<lparr>title_rendered := ''second''\<rparr>]\<rparr>])
   \<and> count_list (layoutIds ((withPosts [[1], [2], [7], []])
              [3 := (createEmptyColumns ! 3)\<lparr>posts := [(samplePost 7)\<lparr>title_rendered := ''second''\<rparr>]\<rparr>]))
         ''7'' = 2"
  by code_simp

text \<open>
  C5. Reconciling twice with the same item list changes nothing the second time: for every
  layout with at least one column, reconciliation returns a layout, and reconciling that
  layout with the same list returns it again. Whenever every incoming identifier is already
  placed, reconciliation returns the stale-filtered layout: each column keeps, in their
  order, exactly its posts whose identifier is incoming.
\<close>

theorem reconcile_idempotent:
  "(cols \<noteq> [] \<longrightarrow> (\<exists>r. reconcile data cols = Inr r \<and> reconcile data r = Inr r))
   \<and> (set (map getPostId data) \<subseteq> set (layoutIds cols)
        \<longrightarrow> reconcile data cols = Inr (filtered data cols)
            \<and> length (filtered data cols) = length cols
            \<and> (\<forall>i<length cols.
                  filtered data cols ! i
                    = (cols ! i)\<lparr>posts := filter (\<lambda>post. getPostId post \<in> set (map getPostId data))
                                                (posts (cols ! i))\<rparr>))"
proof -
  have nonew: "newPosts data c = []" if "set (map getPostId data) \<subseteq> set (layoutIds c)" for c
    using that by (auto simp: newPosts_alt filter_empty_conv)
  have idem: "\<exists>r. reconcile data cols = Inr r \<and> reconcile data r = Inr r" if "cols \<noteq> []"
  proof -
    from reconcile_total [OF that] obtain r where r: "reconcile data cols = Inr r" by blast
    have ids: "set (layoutIds r) = set (map getPostId data)" by (rule reconcile_ids_set [OF r])
    then have "filtered data r = r" by (intro filtered_all_placed) simp
    moreover have "newPosts data r = []" using ids by (intro nonew) simp
    ultimately have "reconcile data r = Inr r" by (simp add: reconcile_def)
    with r show ?thesis by blast
  qed
  have keep: "reconcile data cols = Inr (filtered data cols)"
    if "set (map getPostId data) \<subseteq> set (layoutIds cols)"
    using nonew [OF that] by (simp add: reconcile_def)
  have shape: "\<forall>i<length cols.
                  filtered data cols ! i
                    = (cols ! i)\<lparr>posts := filter (\<lambda>post. getPostId post \<in> set (map getPostId data))
                                                (posts (cols ! i))\<rparr>"
    by (simp add: filtered_def)
  from idem keep shape filtered_shape(1) [of data cols] show ?thesis by blast
qed

theorem reconcile_idempotent_witness:
  "withPosts [[2, 1], [3], [4], []] \<noteq> []
   \<and> reconcile (map samplePost [5, 3, 1, 2]) (withPosts [[2, 1], [3], [4], []])
       = Inr (withPosts [[2, 1], [3], [5], []])
   \<and> reconcile (map samplePost [5, 3, 1, 2]) (withPosts [[2, 1], [3], [5], []])
       = Inr (withPosts [[2, 1], [3], [5], []])
   \<and> set (map getPostId (map samplePost [1, 3, 2])) \<subseteq> set (layoutIds (withPosts [[2, 1], [3], [4], []]))
   \<and> reconcile (map samplePost [1, 3, 2]) (withPosts [[2, 1], [3], [4], []])
       = Inr (withPosts [[2, 1], [3], [], []])"
proof -
  let ?L = "withPosts [[2, 1], [3], [4], []]"
  let ?d = "map samplePost [5, 3, 1, 2]"
  let ?e = "map samplePost [1, 3, 2]"
  have h: "?L \<noteq> []" by code_simp
  have first: "reconcile ?d ?L = Inr (withPosts [[2, 1], [3], [5], []])" by code_simp
  from reconcile_idempotent [of ?L ?d] h obtain r
    where r: "reconcile ?d ?L = Inr r" "reconcile ?d r = Inr r" by blast
  from r(1) first have "r = withPosts [[2, 1], [3], [5], []]" by simp
  with r(2) have second: "reconcile ?d (withPosts [[2, 1], [3], [5], []])
                            = Inr (withPosts [[2, 1], [3], [5], []])" by simp
  have sub: "set (map getPostId ?e) \<subseteq> set (layoutIds ?L)" by code_simp
  have f: "filtered ?e ?L = withPosts [[2, 1], [3], [], []]" by code_simp
  from reconcile_idempotent [of ?L ?e] sub
  have "reconcile ?e ?L = Inr (filtered ?e ?L)" by blast
  with f have third: "reconcile ?e ?L = Inr (withPosts [[2, 1], [3], [], []])" by simp
  from h first second sub third show ?thesis by (intro conjI)
qed

lemma newPosts_brand_new:
  "p \<in> set (newPosts data cols) \<Longrightarrow> p \<in> set data \<and> getPostId p \<notin> set (layoutIds cols)"
  by (simp add: newPosts_alt)

text \<open>
  C2. Reconciliation only removes stale posts and appends brand-new ones at column tails. For
  every layout with at least one column and every incoming list it returns a layout with the
  same columns in which each column holds first its former posts whose identifier is
  incoming, in their former order, and then posts of the incoming list whose identifier no
  column held before. Hence an identifier the layout held before is, afterwards, in exactly
  the columns that held it before (provided it is incoming).
\<close>

theorem reconcile_preserves_order:
  assumes "cols \<noteq> []"
  shows "\<exists>r. reconcile data cols = Inr r \<and> length r = length cols
            \<and> map id_column r = map id_column cols
            \<and> (\<forall>i<length cols.
                  (\<exists>added. posts (r ! i)
                       = filter (\<lambda>post. getPostId post \<in> set (map getPostId data)) (posts (cols ! i))
                         @ added
                     \<and> set added \<subseteq> set data
                     \<and> (\<forall>p\<in>set added. getPostId p \<notin> set (layoutIds cols)))
                  \<and> (\<forall>x\<in>set (layoutIds cols).
                        x \<in> set (columnIds (r ! i))
                          \<longleftrightarrow> x \<in> set (columnIds (cols ! i)) \<and> x \<in> set (map getPostId data)))"
proof -
  from reconcile_total [OF assms] obtain r where r: "reconcile data cols = Inr r" by blast
  note shape = reconcile_shape [OF r]
  have col: "(\<exists>added. posts (r ! i)
                       = filter (\<lambda>post. getPostId post \<in> set (map getPostId data)) (posts (cols ! i))
                         @ added
                     \<and> set added \<subseteq> set data
                     \<and> (\<forall>p\<in>set added. getPostId p \<notin> set (layoutIds cols)))
                  \<and> (\<forall>x\<in>set (layoutIds cols).
                        x \<in> set (columnIds (r ! i))
                          \<longleftrightarrow> x \<in> set (columnIds (cols ! i)) \<and> x \<in> set (map getPostId data))"
    if i: "i < length cols" for i
  proof -
    have "i < length (filtered data cols)" using i by (simp add: filtered_shape)
    from placeAll_posts [OF r [unfolded reconcile_placeAll] this] obtain added
      where a: "posts (r ! i) = posts (filtered data cols ! i) @ added"
        "set added \<subseteq> set (newPosts data cols)" by blast
    let ?kept = "filter (\<lambda>post. getPostId post \<in> set (map getPostId data)) (posts (cols ! i))"
    have eq: "posts (r ! i) = ?kept @ added" using a(1) filtered_posts [OF i] by simp
    have sub: "set added \<subseteq> set data" using a(2) newPosts_brand_new by blast
    have new: "\<forall>p\<in>set added. getPostId p \<notin> set (layoutIds cols)"
      using a(2) newPosts_brand_new by blast
    have "x \<in> set (columnIds (r ! i))
            \<longleftrightarrow> x \<in> set (columnIds (cols ! i)) \<and> x \<in> set (map getPostId data)"
      if x: "x \<in> set (layoutIds cols)" for x
    proof -
      have "x \<notin> getPostId ` set added" using new x by auto
      then show ?thesis unfolding columnIds_def eq by auto
    qed
    with eq sub new show ?thesis by blast
  qed
  from r shape(1,2) col show ?thesis by blast
qed

theorem reconcile_preserves_order_witness:
  "withPosts [[2, 9, 1], [3], [4], []] \<noteq> []
   \<and> (\<exists>r. reconcile (map samplePost [5, 3, 1, 2, 6]) (withPosts [[2, 9, 1], [3], [4], []]) = Inr r
          \<and> r = withPosts [[2, 1], [3], [5], [6]]
          \<and> (\<exists>added. posts (r ! 0) = map samplePost [2, 1] @ added)
          \<and> ''2'' \<in> set (columnIds (r ! 0))
          \<and> ''2'' \<notin> set (columnIds (r ! 1)))"
proof -
  let ?L = "withPosts [[2, 9, 1], [3], [4], []]"
  let ?d = "map samplePost [5, 3, 1, 2, 6]"
  have h: "?L \<noteq> []" by code_simp
  have l0: "(0::nat) < length ?L" and l1: "(1::nat) < length ?L" by code_simp+
  have k0: "filter (\<lambda>post. getPostId post \<in> set (map getPostId ?d)) (posts (?L ! 0))
              = map samplePost [2, 1]" by code_simp
  have x: "''2'' \<in> set (layoutIds ?L)" by code_simp
  have c0: "''2'' \<in> set (columnIds (?L ! 0)) \<and> ''2'' \<in> set (map getPostId ?d)" by code_simp
  have c1: "\<not> (''2'' \<in> set (columnIds (?L ! 1)) \<and> ''2'' \<in> set (map getPostId ?d))" by code_simp
  have v: "reconcile ?d ?L = Inr (withPosts [[2, 1], [3], [5], [6]])" by code_simp
  from reconcile_preserves_order [OF h, of ?d] obtain r where
    r: "reconcile ?d ?L = Inr r" and
    all: "\<forall>i<length ?L.
            (\<exists>added. posts (r ! i)
                 = filter (\<lambda>post. getPostId post \<in> set (map getPostId ?d)) (posts (?L ! i)) @ added
               \<and> set added \<subseteq> set ?d
               \<and> (\<forall>p\<in>set added. getPostId p \<notin> set (layoutIds ?L)))
            \<and> (\<forall>x\<in>set (layoutIds ?L).
                  x \<in> set (columnIds (r ! i))
                    \<longleftrightarrow> x \<in> set (columnIds (?L ! i)) \<and> x \<in> set (map getPostId ?d))"
    by blast
  from all l0 obtain added where "posts (r ! 0)
        = filter (\<lambda>post. getPostId post \<in> set (map getPostId ?d)) (posts (?L ! 0)) @ added"
    by blast
  then have p0: "\<exists>added. posts (r ! 0) = map samplePost [2, 1] @ added"
    unfolding k0 by blast
  from all l0 x c0 have m0: "''2'' \<in> set (columnIds (r ! 0))" by blast
  from all l1 x c1 have m1: "''2'' \<notin> set (columnIds (r ! 1))" by blast
  from r v have rv: "r = withPosts [[2, 1], [3], [5], [6]]" by simp
  from r rv p0 m0 m1 have "\<exists>r. reconcile ?d ?L = Inr r
          \<and> r = withPosts [[2, 1], [3], [5], [6]]
          \<and> (\<exists>added. posts (r ! 0) = map samplePost [2, 1] @ added)
          \<and> ''2'' \<in> set (columnIds (r ! 0))
          \<and> ''2'' \<notin> set (columnIds (r ! 1))"
    by (intro exI [of _ r] conjI)
  with h show ?thesis by (intro conjI)
qed

lemma createEmptyColumns_eq:
  "createEmptyColumns =
     [\<lparr>id_column = ''column-0'', label = ''Column 1'', posts = []\<rparr>,
      \<lparr>id_column = ''column-1'', label = ''Column 2'', posts = []\<rparr>,
      \<lparr>id_column = ''column-2'', label = ''Column 3'', posts = []\<rparr>,
      \<lparr>id_column = ''column-3'', label = ''Column 4'', posts = []\<rparr>]"
  by code_simp

lemma placeAll_Cons:
  assumes "cols \<noteq> []"
  shows "placeAll cols (p # rest) =
           placeAll (cols[targetIndex cols :=
                       (cols ! targetIndex cols)\<lparr>posts := posts (cols ! targetIndex cols) @ [p]\<rparr>])
                    rest"
  by (simp add: placePost_Inr [OF assms])

lemma targetIndex_four:
  "targetIndex [c0, c1, c2, c3] =
     (let m1 = (if length (posts c1) < length (posts c0) then 1 else 0);
          m2 = (if length (posts c2) < length (posts ([c0, c1, c2, c3] ! m1)) then 2 else m1)
      in if length (posts c3) < length (posts ([c0, c1, c2, c3] ! m2)) then 3 else m2)"
  by (simp add: targetIndex_def Let_def numeral_2_eq_2 numeral_3_eq_3)

text \<open>
  C4. The new items are the incoming posts whose identifier no column holds, in the order of
  the incoming list, and reconciliation places them one after the other on the stale-filtered
  layout. Each one is appended to the column \<open>targetIndex\<close> picks from the columns as they
  are at that moment: a column with the fewest posts, and the first such column (every column
  before it holds strictly more). Reconciling the empty four-column layout with five items
  \<open>A, B, C, D, E\<close> puts \<open>A\<close> and then \<open>E\<close> into column 0, \<open>B\<close> into column 1, \<open>C\<close> into
  column 2 and \<open>D\<close> into column 3.
\<close>

theorem reconcile_balance:
  "reconcile data cols
     = placeAll (filtered data cols) (filter (\<lambda>post. getPostId post \<notin> set (layoutIds cols)) data)
   \<and> (nextColumns \<noteq> [] \<longrightarrow>
        targetIndex nextColumns < length nextColumns
        \<and> (\<forall>j<length nextColumns. length (posts (nextColumns ! targetIndex nextColumns))
                                      \<le> length (posts (nextColumns ! j)))
        \<and> (\<forall>j<targetIndex nextColumns. length (posts (nextColumns ! targetIndex nextColumns))
                                          < length (posts (nextColumns ! j)))
        \<and> placeAll nextColumns (post # rest)
            = placeAll (nextColumns[targetIndex nextColumns :=
                          (nextColumns ! targetIndex nextColumns)
                            \<lparr>posts := posts (nextColumns ! targetIndex nextColumns) @ [post]\<rparr>])
                       rest)
   \<and> reconcile [A, B, C, D, E] createEmptyColumns
       = Inr [(createEmptyColumns ! 0)\<lparr>posts := [A, E]\<rparr>,
              (createEmptyColumns ! 1)\<lparr>posts := [B]\<rparr>,
              (createEmptyColumns ! 2)\<lparr>posts := [C]\<rparr>,
              (createEmptyColumns ! 3)\<lparr>posts := [D]\<rparr>]"
proof -
  have order: "reconcile data cols
     = placeAll (filtered data cols) (filter (\<lambda>post. getPostId post \<notin> set (layoutIds cols)) data)"
    by (simp add: reconcile_placeAll newPosts_alt)
  have step: "targetIndex nextColumns < length nextColumns
        \<and> (\<forall>j<length nextColumns. length (posts (nextColumns ! targetIndex nextColumns))
                                      \<le> length (posts (nextColumns ! j)))
        \<and> (\<forall>j<targetIndex nextColumns. length (posts (nextColumns ! targetIndex nextColumns))
                                          < length (posts (nextColumns ! j)))
        \<and> placeAll nextColumns (post # rest)
            = placeAll (nextColumns[targetIndex nextColumns :=
                          (nextColumns ! targetIndex nextColumns)
                            \<lparr>posts := posts (nextColumns ! targetIndex nextColumns) @ [post]\<rparr>])
                       rest"
    if ne: "nextColumns \<noteq> []"
    using targetIndex_props [OF ne] placeAll_Cons [OF ne] by blast
  have f: "filtered [A, B, C, D, E] createEmptyColumns = createEmptyColumns"
    by (simp add: createEmptyColumns_eq filtered_def)
  have n: "newPosts [A, B, C, D, E] createEmptyColumns = [A, B, C, D, E]"
    by (simp add: newPosts_alt layoutIds_def columnIds_def createEmptyColumns_eq)
  have "placeAll createEmptyColumns [A, B, C, D, E]
       = Inr [(createEmptyColumns ! 0)\<lparr>posts := [A, E]\<rparr>,
              (createEmptyColumns ! 1)\<lparr>posts := [B]\<rparr>,
              (createEmptyColumns ! 2)\<lparr>posts := [C]\<rparr>,
              (createEmptyColumns ! 3)\<lparr>posts := [D]\<rparr>]"
    unfolding createEmptyColumns_eq
    by (simp add: placePost_def targetIndex_four Let_def numeral_2_eq_2 numeral_3_eq_3)
  then have example: "reconcile [A, B, C, D, E] createEmptyColumns
       = Inr [(createEmptyColumns ! 0)\<lparr>posts := [A, E]\<rparr>,
              (createEmptyColumns ! 1)\<lparr>posts := [B]\<rparr>,
              (createEmptyColumns ! 2)\<lparr>posts := [C]\<rparr>,
              (createEmptyColumns ! 3)\<lparr>posts := [D]\<rparr>]"
    by (simp add: reconcile_placeAll f n)
  from order step example show ?thesis by blast
qed

theorem reconcile_balance_witness:
  "withPosts [[1, 2], [3], [4], []] \<noteq> []
   \<and> targetIndex (withPosts [[1, 2], [3], [4], []]) = 3
   \<and> length (posts (withPosts [[1, 2], [3], [4], []] ! 3))
         < length (posts (withPosts [[1, 2], [3], [4], []] ! 0))
   \<and> length (posts (withPosts [[1, 2], [3], [4], []] ! 3))
         < length (posts (withPosts [[1, 2], [3], [4], []] ! 1))
   \<and> length (posts (withPosts [[1, 2], [3], [4], []] ! 3))
         < length (posts (withPosts [[1, 2], [3], [4], []] ! 2))
   \<and> placeAll (withPosts [[1, 2], [3], [4], []]) [samplePost 5, samplePost 6]
       = Inr (withPosts [[1, 2], [3, 6], [4], [5]])
   \<and> reconcile (map samplePost [10, 20, 30, 40, 50]) createEmptyColumns
       = Inr (withPosts [[10, 50], [20], [30], [40]])"
proof -
  let ?L = "withPosts [[1, 2], [3], [4], []]"
  have h: "?L \<noteq> []" by code_simp
  have t: "targetIndex ?L = 3" by code_simp
  note b = reconcile_balance [of "map samplePost [10, 20, 30, 40, 50]" createEmptyColumns ?L
      "samplePost 5" "[samplePost 6]"
      "samplePost 10" "samplePost 20" "samplePost 30" "samplePost 40" "samplePost 50"]
  from b h have lt: "\<forall>j<targetIndex ?L. length (posts (?L ! targetIndex ?L))
                                          < length (posts (?L ! j))"
    by blast
  from b h have st: "placeAll ?L [samplePost 5, samplePost 6]
            = placeAll (?L[targetIndex ?L :=
                          (?L ! targetIndex ?L)\<lparr>posts := posts (?L ! targetIndex ?L) @ [samplePost 5]\<rparr>])
                       [samplePost 6]"
    by blast
  have "placeAll (?L[3 := (?L ! 3)\<lparr>posts := posts (?L ! 3) @ [samplePost 5]\<rparr>]) [samplePost 6]
          = Inr (withPosts [[1, 2], [3, 6], [4], [5]])"
    by code_simp
  with st have pl: "placeAll ?L [samplePost 5, samplePost 6] = Inr (withPosts [[1, 2], [3, 6], [4], [5]])"
    unfolding t by simp
  from b have "reconcile [samplePost 10, samplePost 20, samplePost 30, samplePost 40, samplePost 50]
                 createEmptyColumns
       = Inr [(createEmptyColumns ! 0)\<lparr>posts := [samplePost 10, samplePost 50]\<rparr>,
              (createEmptyColumns ! 1)\<lparr>posts := [samplePost 20]\<rparr>,
              (createEmptyColumns ! 2)\<lparr>posts := [samplePost 30]\<rparr>,
              (createEmptyColumns ! 3)\<lparr>posts := [samplePost 40]\<rparr>]"
    by blast
  moreover have "[(createEmptyColumns ! 0)\<lparr>posts := [samplePost 10, samplePost 50]\<rparr>,
              (createEmptyColumns ! 1)\<lparr>posts := [samplePost 20]\<rparr>,
              (createEmptyColumns ! 2)\<lparr>posts := [samplePost 30]\<rparr>,
              (createEmptyColumns ! 3)\<lparr>posts := [samplePost 40]\<rparr>]
        = withPosts [[10, 50], [20], [30], [40]]"
    by code_simp
  ultimately have ex: "reconcile (map samplePost [10, 20, 30, 40, 50]) createEmptyColumns
       = Inr (withPosts [[10, 50], [20], [30], [40]])"
    by simp
  from lt [unfolded t] have l0: "length (posts (?L ! 3)) < length (posts (?L ! 0))"
    and l1: "length (posts (?L ! 3)) < length (posts (?L ! 1))"
    and l2: "length (posts (?L ! 3)) < length (posts (?L ! 2))"
    by simp_all
  from h t l0 l1 l2 pl ex show ?thesis by (intro conjI)
qed

end
